theory Spec2Isabelle
  imports Complex_Main
begin

section \<open>JavaScript values and the string built-ins the server uses\<close>

text \<open>
  A cell of a parsed worksheet row is a JavaScript value: text, a number, a boolean, or
  \<open>undefined\<close> when the row object has no such property. Numeric cells are modelled for
  integer contents below 10^21 in size, where \<open>String(n)\<close> prints plain decimal digits.
  Text is modelled as ASCII: \<open>toUpperCase\<close> and \<open>toLowerCase\<close> act on the letters
  a-z and A-Z only and \<open>trim\<close> removes the ASCII white space characters, which is what
  the built-ins do on ASCII strings. On other text the built-ins also map letters and
  strip white space outside ASCII; statements that depend on it are confined to ASCII
  text by a hypothesis, or are evaluations at ASCII inputs.
\<close>

datatype jsval = Undefined | Text string | Number int | Boolean bool

type_synonym row = "string \<rightharpoonup> jsval"

text \<open>\<open>row[col]\<close>: a property that is absent reads as \<open>undefined\<close>.\<close>

definition get :: "row \<Rightarrow> string \<Rightarrow> jsval" where
  "get r col = (case r col of None \<Rightarrow> Undefined | Some v \<Rightarrow> v)"

definition hasOwnProperty :: "row \<Rightarrow> string \<Rightarrow> bool" where
  "hasOwnProperty r col = (r col \<noteq> None)"

text \<open>JavaScript truthiness, as tested by \<open>!v\<close>, \<open>if (v)\<close> and \<open>v || d\<close>.\<close>

fun truthy :: "jsval \<Rightarrow> bool" where
  "truthy Undefined = False"
| "truthy (Text s) = (s \<noteq> [])"
| "truthy (Number n) = (n \<noteq> 0)"
| "truthy (Boolean b) = b"

definition orElse :: "jsval \<Rightarrow> jsval \<Rightarrow> jsval" where
  "orElse v d = (if truthy v then v else d)"

definition digit :: "nat \<Rightarrow> char" where
  "digit d = ''0123456789'' ! d"

fun showNat :: "nat \<Rightarrow> string" where
  "showNat n = (if n < 10 then [digit n] else showNat (n div 10) @ [digit (n mod 10)])"

declare showNat.simps [simp del]

definition showInt :: "int \<Rightarrow> string" where
  "showInt i = (if i < 0 then CHR ''-'' # showNat (nat (- i)) else showNat (nat i))"

text \<open>\<open>String(v)\<close>, which is also what a template literal \<open>${v}\<close> inserts.\<close>

fun toString :: "jsval \<Rightarrow> string" where
  "toString Undefined = ''undefined''"
| "toString (Text s) = s"
| "toString (Number n) = showInt n"
| "toString (Boolean b) = (if b then ''true'' else ''false'')"

definition lowerLetters :: string where
  "lowerLetters = ''abcdefghijklmnopqrstuvwxyz''"

definition upperLetters :: string where
  "upperLetters = ''ABCDEFGHIJKLMNOPQRSTUVWXYZ''"

definition upperChar :: "char \<Rightarrow> char" where
  "upperChar c = (case map_of (zip lowerLetters upperLetters) c of None \<Rightarrow> c | Some u \<Rightarrow> u)"

definition lowerChar :: "char \<Rightarrow> char" where
  "lowerChar c = (case map_of (zip upperLetters lowerLetters) c of None \<Rightarrow> c | Some l \<Rightarrow> l)"

definition toUpperCase :: "string \<Rightarrow> string" where
  "toUpperCase s = map upperChar s"

definition toLowerCase :: "string \<Rightarrow> string" where
  "toLowerCase s = map lowerChar s"

text \<open>White space removed by \<open>trim\<close>: tab, line feed, vertical tab, form feed,
  carriage return and space.\<close>

definition isSpace :: "char \<Rightarrow> bool" where
  "isSpace c = (c \<in> set [CHR 0x09, CHR 0x0A, CHR 0x0B, CHR 0x0C, CHR 0x0D, CHR '' ''])"

definition trim :: "string \<Rightarrow> string" where
  "trim s = rev (dropWhile isSpace (rev (dropWhile isSpace s)))"

text \<open>\<open>s.includes(t)\<close>: \<open>t\<close> occurs in \<open>s\<close> as a contiguous substring.\<close>

fun startsWith :: "string \<Rightarrow> string \<Rightarrow> bool" where
  "startsWith s [] = True"
| "startsWith [] (c # t) = False"
| "startsWith (d # s) (c # t) = (d = c \<and> startsWith s t)"

fun includes_str :: "string \<Rightarrow> string \<Rightarrow> bool" where
  "includes_str [] t = (t = [])"
| "includes_str (d # s) t = (startsWith (d # s) t \<or> includes_str s t)"

text \<open>\<open>xs.join(sep)\<close> on an array of strings.\<close>

fun join :: "string list \<Rightarrow> string \<Rightarrow> string" where
  "join [] sep = []"
| "join [x] sep = x"
| "join (x # y # xs) sep = x @ sep @ join (y # xs) sep"

text \<open>\<open>xs.slice(start, end)\<close>: a negative bound counts from the end of the array, and
  both bounds are clamped to the array.\<close>

definition slice :: "'a list \<Rightarrow> int \<Rightarrow> int \<Rightarrow> 'a list" where
  "slice xs start fin =
     (let len = int (length xs);
          k = (if start < 0 then max (len + start) 0 else min start len);
          final = (if fin < 0 then max (len + fin) 0 else min fin len)
      in take (nat (final - k)) (drop (nat k) xs))"

section \<open>The store and the HTTP responses\<close>

record participant =
  p_no :: string
  mobile_no :: string
  name :: string
  trade :: string
  gender :: string
  attendance_day1 :: string
  attendance_day2 :: string
  created_at :: string

text \<open>\<open>Math.ceil(total / limit)\<close> is a JavaScript number: dividing by zero gives
  \<open>Infinity\<close>, or \<open>NaN\<close> for 0 / 0.\<close>

datatype jsnum = Finite int | Infinity | NaN

record pagination =
  total :: int
  page :: int
  totalPages :: jsnum
  limit :: int
  hasNext :: bool
  hasPrev :: bool

datatype body =
    UploadOk string int int
  | MissingColumnsError string "string list"
  | ValidationFailed string "string list"
  | ErrorBody string
  | ParticipantBody participant
  | SearchBody "participant list" pagination

record response =
  status :: nat
  body :: body

text \<open>The process-wide array \<open>participants\<close>, the content of the data file as last
  written, and the number of times the file has been written. \<open>saveDataToFile\<close>
  serialises the array at the moment of the call; a failing write is only logged by the
  source and is not modelled.\<close>

record server =
  participants :: "participant list"
  dataFile :: "participant list"
  fileWrites :: nat

definition saveDataToFile :: "server \<Rightarrow> server" where
  "saveDataToFile srv = srv\<lparr>dataFile := participants srv, fileWrites := Suc (fileWrites srv)\<rparr>"

section \<open>POST /api/upload\<close>

definition requiredColumns :: "string list" where
  "requiredColumns =
     [''P.No'', ''Mobile No'', ''Name'', ''Trade'', ''Gender'',
      ''Attendance Day 1'', ''Attendance Day 2'']"

definition missingColumns :: "row list \<Rightarrow> string list" where
  "missingColumns jsonData =
     (let firstRow = (case jsonData of [] \<Rightarrow> Map.empty | r # rest \<Rightarrow> r)
      in filter (\<lambda>col. \<not> hasOwnProperty firstRow col) requiredColumns)"

record vstate =
  validationErrors :: "string list"
  seenPNo :: "jsval set"
  seenMobileNo :: "jsval set"

definition rowLabel :: "nat \<Rightarrow> string" where
  "rowLabel index = ''Row '' @ showNat (index + 2) @ '': ''"

definition validAttendance :: "jsval \<Rightarrow> bool" where
  "validAttendance v = (trim (toUpperCase (toString v)) \<in> set [''P'', ''A''])"

text \<open>The messages one iteration of the validation loop pushes, in order.\<close>

definition rowErrors :: "vstate \<Rightarrow> row \<Rightarrow> nat \<Rightarrow> string list" where
  "rowErrors st r index =
     (if \<not> truthy (get r ''P.No'') \<or> \<not> truthy (get r ''Mobile No'') \<or> \<not> truthy (get r ''Name'')
      then [rowLabel index @ ''Missing required fields (P.No, Mobile No, or Name)''] else [])
     @ (if get r ''P.No'' \<in> seenPNo st
        then [rowLabel index @ ''Duplicate P.No '' @ [CHR 0x27] @ toString (get r ''P.No'') @ [CHR 0x27]]
        else [])
     @ (if get r ''Mobile No'' \<in> seenMobileNo st
        then [rowLabel index @ ''Duplicate Mobile No '' @ [CHR 0x27]
                @ toString (get r ''Mobile No'') @ [CHR 0x27]]
        else [])
     @ (if \<not> validAttendance (get r ''Attendance Day 1'')
        then [rowLabel index @ ''Invalid value for Attendance Day 1 (expected P or A, got ''
                @ toString (get r ''Attendance Day 1'') @ '')'']
        else [])
     @ (if \<not> validAttendance (get r ''Attendance Day 2'')
        then [rowLabel index @ ''Invalid value for Attendance Day 2 (expected P or A, got ''
                @ toString (get r ''Attendance Day 2'') @ '')'']
        else [])"

text \<open>One iteration of \<open>jsonData.forEach((row, index) => ...)\<close> of the validation pass.\<close>

definition validateRow :: "vstate \<Rightarrow> row \<Rightarrow> nat \<Rightarrow> vstate" where
  "validateRow st r index =
     \<lparr>validationErrors = validationErrors st @ rowErrors st r index,
      seenPNo = (if truthy (get r ''P.No'') then insert (get r ''P.No'') (seenPNo st)
                 else seenPNo st),
      seenMobileNo = (if truthy (get r ''Mobile No'')
                      then insert (get r ''Mobile No'') (seenMobileNo st)
                      else seenMobileNo st)\<rparr>"

fun validateRows :: "vstate \<Rightarrow> nat \<Rightarrow> row list \<Rightarrow> vstate" where
  "validateRows st index [] = st"
| "validateRows st index (r # rs) = validateRows (validateRow st r index) (Suc index) rs"

definition validate :: "row list \<Rightarrow> vstate" where
  "validate jsonData =
     validateRows \<lparr>validationErrors = [], seenPNo = {}, seenMobileNo = {}\<rparr> 0 jsonData"

text \<open>The second pass. Only the keys of the \<open>duplicateCheck\<close> map are ever consulted
  (\<open>has\<close>), so the map is modelled by its key set. \<open>new Date().toISOString()\<close> reads
  the clock; \<open>clock k\<close> is the time stamp read for insertion number \<open>k\<close>.\<close>

record istate =
  duplicateCheck :: "jsval set"
  newParticipants :: "participant list"
  insertCount :: nat

definition existingKeys :: "participant list \<Rightarrow> jsval set" where
  "existingKeys ps =
     foldl (\<lambda>m p. insert (Text (mobile_no p)) (insert (Text (p_no p)) m)) {} ps"

definition newParticipant :: "string \<Rightarrow> row \<Rightarrow> participant" where
  "newParticipant now r =
     \<lparr>p_no = toString (get r ''P.No''),
      mobile_no = toString (get r ''Mobile No''),
      name = toString (get r ''Name''),
      trade = toString (orElse (get r ''Trade'') (Text [])),
      gender = toString (orElse (get r ''Gender'') (Text [])),
      attendance_day1 = toUpperCase (toString (get r ''Attendance Day 1'')),
      attendance_day2 = toUpperCase (toString (get r ''Attendance Day 2'')),
      created_at = now\<rparr>"

definition isDuplicate :: "istate \<Rightarrow> row \<Rightarrow> bool" where
  "isDuplicate st r =
     (get r ''P.No'' \<in> duplicateCheck st \<or> get r ''Mobile No'' \<in> duplicateCheck st)"

definition insertRow :: "(nat \<Rightarrow> string) \<Rightarrow> istate \<Rightarrow> row \<Rightarrow> istate" where
  "insertRow clock st r =
     (if isDuplicate st r then st
      else let np = newParticipant (clock (insertCount st)) r
           in \<lparr>duplicateCheck =
                  insert (Text (mobile_no np)) (insert (Text (p_no np)) (duplicateCheck st)),
                newParticipants = newParticipants st @ [np],
                insertCount = Suc (insertCount st)\<rparr>)"

definition insertRows :: "(nat \<Rightarrow> string) \<Rightarrow> participant list \<Rightarrow> row list \<Rightarrow> istate" where
  "insertRows clock ps jsonData =
     foldl (insertRow clock)
       \<lparr>duplicateCheck = existingKeys ps, newParticipants = [], insertCount = 0\<rparr> jsonData"

definition upload :: "(nat \<Rightarrow> string) \<Rightarrow> server \<Rightarrow> row list \<Rightarrow> response \<times> server" where
  "upload clock srv jsonData =
     (if length (missingColumns jsonData) > 0
      then (\<lparr>status = 400,
             body = MissingColumnsError
                      (''Missing required columns: '' @ join (missingColumns jsonData) '', '')
                      (missingColumns jsonData)\<rparr>, srv)
      else if length (validationErrors (validate jsonData)) > 0
      then (\<lparr>status = 400,
             body = ValidationFailed ''Validation failed'' (validationErrors (validate jsonData))\<rparr>,
            srv)
      else let st = insertRows clock (participants srv) jsonData
           in (\<lparr>status = 200,
                body = UploadOk
                         (''Successfully processed '' @ showNat (length jsonData) @ '' records'')
                         (int (insertCount st))
                         (int (length jsonData) - int (insertCount st))\<rparr>,
               saveDataToFile
                 (srv\<lparr>participants := participants srv @ newParticipants st\<rparr>)))"

section \<open>GET /api/participants\<close>

text \<open>The query string after parsing: a filter is a string when present; \<open>page\<close> and
  \<open>limit\<close> hold the integer \<open>parseInt\<close> returns, and are absent when the parameter is
  (then the defaults 1 and 10 apply).\<close>

record query =
  q_p_no :: "string option"
  q_mobile_no :: "string option"
  q_name :: "string option"
  q_trade :: "string option"
  q_gender :: "string option"
  q_page :: "int option"
  q_limit :: "int option"

text \<open>\<open>if (f) xs = xs.filter(p => pred)\<close>: an absent or empty parameter is falsy.\<close>

definition whenGiven ::
  "string option \<Rightarrow> (string \<Rightarrow> participant \<Rightarrow> bool) \<Rightarrow> participant list \<Rightarrow> participant list"
where
  "whenGiven f pred ps =
     (case f of None \<Rightarrow> ps | Some s \<Rightarrow> if s \<noteq> [] then filter (pred s) ps else ps)"

definition filteredParticipants :: "query \<Rightarrow> participant list \<Rightarrow> participant list" where
  "filteredParticipants q ps =
     whenGiven (q_gender q) (\<lambda>s p. gender p = s)
       (whenGiven (q_trade q) (\<lambda>s p. trade p = s)
         (whenGiven (q_name q) (\<lambda>s p. includes_str (toLowerCase (name p)) (toLowerCase s))
           (whenGiven (q_mobile_no q) (\<lambda>s p. includes_str (mobile_no p) s)
             (whenGiven (q_p_no q)
                (\<lambda>s p. includes_str (toLowerCase (p_no p)) (toLowerCase s)) ps))))"

definition ceilDiv :: "nat \<Rightarrow> int \<Rightarrow> jsnum" where
  "ceilDiv a b =
     (if b = 0 then (if a = 0 then NaN else Infinity) else Finite (- ((- int a) div b)))"

fun lessNum :: "int \<Rightarrow> jsnum \<Rightarrow> bool" where
  "lessNum i (Finite j) = (i < j)"
| "lessNum i Infinity = True"
| "lessNum i NaN = False"

definition paginatedResults :: "participant list \<Rightarrow> int \<Rightarrow> int \<Rightarrow> participant list" where
  "paginatedResults fs currentPage perPage =
     (let startIndex = (currentPage - 1) * perPage;
          endIndex = min (startIndex + perPage) (int (length fs))
      in slice fs startIndex endIndex)"

definition paginationOf :: "participant list \<Rightarrow> int \<Rightarrow> int \<Rightarrow> pagination" where
  "paginationOf fs currentPage perPage =
     \<lparr>total = int (length fs),
      page = currentPage,
      totalPages = ceilDiv (length fs) perPage,
      limit = perPage,
      hasNext = lessNum currentPage (ceilDiv (length fs) perPage),
      hasPrev = (currentPage > 1)\<rparr>"

text \<open>\<open>parseInt(page)\<close> and \<open>parseInt(limit)\<close>, with the defaults of the
  destructuring \<open>{ ..., page = 1, limit = 10 } = req.query\<close>.\<close>

definition pageOf :: "query \<Rightarrow> int" where
  "pageOf q = (case q_page q of None \<Rightarrow> 1 | Some n \<Rightarrow> n)"

definition limitOf :: "query \<Rightarrow> int" where
  "limitOf q = (case q_limit q of None \<Rightarrow> 10 | Some n \<Rightarrow> n)"

definition search :: "server \<Rightarrow> query \<Rightarrow> response" where
  "search srv q =
     (let fs = filteredParticipants q (participants srv)
      in \<lparr>status = 200,
          body = SearchBody (paginatedResults fs (pageOf q) (limitOf q))
                   (paginationOf fs (pageOf q) (limitOf q))\<rparr>)"

section \<open>GET /api/participants/:p_no\<close>

definition getParticipant :: "server \<Rightarrow> string \<Rightarrow> response" where
  "getParticipant srv k =
     (case find (\<lambda>p. p_no p = k) (participants srv) of
        None \<Rightarrow> \<lparr>status = 404, body = ErrorBody ''Participant not found''\<rparr>
      | Some p \<Rightarrow> \<lparr>status = 200, body = ParticipantBody p\<rparr>)"

section \<open>Notions used to state the properties\<close>

text \<open>The state of the validation loop when it reaches the row at index \<open>i\<close>.\<close>

definition vstateBefore :: "row list \<Rightarrow> nat \<Rightarrow> vstate" where
  "vstateBefore jsonData i = validate (take i jsonData)"

text \<open>The keys of the first row; an empty sheet has no first row and so no keys.\<close>

definition firstRowKeys :: "row list \<Rightarrow> string set" where
  "firstRowKeys jsonData = (case jsonData of [] \<Rightarrow> {} | r # rest \<Rightarrow> dom r)"

text \<open>A cell that is missing, empty text, the number 0 or the boolean false.\<close>

definition falsy :: "jsval \<Rightarrow> bool" where
  "falsy v = (v = Undefined \<or> v = Text [] \<or> v = Number 0 \<or> v = Boolean False)"

text \<open>A cell that is missing or empty text.\<close>

definition emptyOrMissing :: "jsval \<Rightarrow> bool" where
  "emptyOrMissing v = (v = Undefined \<or> v = Text [])"

text \<open>The cell of column \<open>col\<close> in row \<open>i\<close> holds the same value as in an earlier
  row of the batch.\<close>

definition repeatsEarlier :: "row list \<Rightarrow> nat \<Rightarrow> string \<Rightarrow> bool" where
  "repeatsEarlier jsonData i col =
     (\<exists>j<i. get (jsonData ! j) col = get (jsonData ! i) col)"

text \<open>The state of the insertion loop when it reaches the row at index \<open>i\<close>, and
  whether that row then takes the early \<open>return\<close> (the row is skipped).\<close>

definition istateBefore ::
  "(nat \<Rightarrow> string) \<Rightarrow> participant list \<Rightarrow> row list \<Rightarrow> nat \<Rightarrow> istate" where
  "istateBefore clock ps jsonData i = insertRows clock ps (take i jsonData)"

definition skipped :: "(nat \<Rightarrow> string) \<Rightarrow> participant list \<Rightarrow> row list \<Rightarrow> nat \<Rightarrow> bool" where
  "skipped clock ps jsonData i = isDuplicate (istateBefore clock ps jsonData i) (jsonData ! i)"

text \<open>The indices below \<open>n\<close> of the rows that are kept and of those that are skipped, in
  batch order, and the records made from the kept rows.\<close>

definition keptIndices ::
  "(nat \<Rightarrow> string) \<Rightarrow> participant list \<Rightarrow> row list \<Rightarrow> nat \<Rightarrow> nat list" where
  "keptIndices clock ps jsonData n = filter (\<lambda>i. \<not> skipped clock ps jsonData i) [0..<n]"

definition skippedIndices ::
  "(nat \<Rightarrow> string) \<Rightarrow> participant list \<Rightarrow> row list \<Rightarrow> nat \<Rightarrow> nat list" where
  "skippedIndices clock ps jsonData n = filter (skipped clock ps jsonData) [0..<n]"

definition appendedRecords ::
  "(nat \<Rightarrow> string) \<Rightarrow> participant list \<Rightarrow> row list \<Rightarrow> nat \<Rightarrow> participant list" where
  "appendedRecords clock ps jsonData n =
     map (\<lambda>(k, i). newParticipant (clock k) (jsonData ! i))
       (enumerate 0 (keptIndices clock ps jsonData n))"

text \<open>The p_no and mobile_no a row is stored under.\<close>

definition rowPNo :: "row \<Rightarrow> string" where
  "rowPNo r = toString (get r ''P.No'')"

definition rowMobileNo :: "row \<Rightarrow> string" where
  "rowMobileNo r = toString (get r ''Mobile No'')"

text \<open>The merged key set when the insertion loop reaches row \<open>i\<close>: the p_no and the
  mobile_no of every record of the store and of every earlier row that was kept.\<close>

definition keysBefore ::
  "(nat \<Rightarrow> string) \<Rightarrow> participant list \<Rightarrow> row list \<Rightarrow> nat \<Rightarrow> string set" where
  "keysBefore clock ps jsonData i =
     p_no ` set ps \<union> mobile_no ` set ps
     \<union> (\<lambda>j. rowPNo (jsonData ! j)) ` set (keptIndices clock ps jsonData i)
     \<union> (\<lambda>j. rowMobileNo (jsonData ! j)) ` set (keptIndices clock ps jsonData i)"



text \<open>\<open>t\<close> is a contiguous substring of \<open>s\<close>.\<close>

definition substringOf :: "string \<Rightarrow> string \<Rightarrow> bool" where
  "substringOf t s = (\<exists>pre suf. s = pre @ t @ suf)"

text \<open>Two characters are the same letter up to case: they are equal, or one is a
  capital A-Z and the other the corresponding small letter. \<open>t\<close> matches inside
  \<open>s\<close> ignoring case when some contiguous part of \<open>s\<close> agrees with \<open>t\<close>
  letter for letter up to case.\<close>

definition sameLetter :: "char \<Rightarrow> char \<Rightarrow> bool" where
  "sameLetter c d =
     (c = d \<or> (c, d) \<in> set (zip upperLetters lowerLetters)
      \<or> (d, c) \<in> set (zip upperLetters lowerLetters))"

definition matchesIgnoringCase :: "string \<Rightarrow> string \<Rightarrow> bool" where
  "matchesIgnoringCase t s =
     (\<exists>pre mid suf. s = pre @ mid @ suf \<and> list_all2 sameLetter mid t)"

text \<open>A filter parameter lets a record pass when it is absent or empty, or when its
  predicate holds of the value; a record satisfies a query when it passes all five
  filters: p_no and name by a match ignoring case, mobile_no by a substring match as
  written, trade and gender by equality.\<close>

definition passes :: "string option \<Rightarrow> (string \<Rightarrow> bool) \<Rightarrow> bool" where
  "passes f pred = (case f of None \<Rightarrow> True | Some s \<Rightarrow> s = [] \<or> pred s)"

definition satisfiesAll :: "query \<Rightarrow> participant \<Rightarrow> bool" where
  "satisfiesAll q p =
     (passes (q_p_no q) (\<lambda>s. matchesIgnoringCase s (p_no p))
      \<and> passes (q_mobile_no q) (\<lambda>s. substringOf s (mobile_no p))
      \<and> passes (q_name q) (\<lambda>s. matchesIgnoringCase s (name p))
      \<and> passes (q_trade q) (\<lambda>s. trade p = s)
      \<and> passes (q_gender q) (\<lambda>s. gender p = s))"

text \<open>ASCII text: every character has its top bit clear.\<close>

definition isAscii :: "string \<Rightarrow> bool" where
  "isAscii s = list_all (\<lambda>c. \<not> digit7 c) s"

definition asciiFilter :: "string option \<Rightarrow> bool" where
  "asciiFilter f = (case f of None \<Rightarrow> True | Some s \<Rightarrow> isAscii s)"

definition notSupplied :: "string option \<Rightarrow> bool" where
  "notSupplied f = (f = None \<or> f = Some [])"

subsection \<open>Sample inputs\<close>

definition exRow :: "string \<Rightarrow> string \<Rightarrow> string \<Rightarrow> string \<Rightarrow> row" where
  "exRow pno mob d1 d2 =
     [''P.No'' \<mapsto> Text pno, ''Mobile No'' \<mapsto> Text mob, ''Name'' \<mapsto> Text ''Asha'',
      ''Trade'' \<mapsto> Text ''Welding'', ''Gender'' \<mapsto> Text ''F'',
      ''Attendance Day 1'' \<mapsto> Text d1, ''Attendance Day 2'' \<mapsto> Text d2]"

definition exClock :: "nat \<Rightarrow> string" where
  "exClock k = ''2024-01-01T00:00:0'' @ showNat (k mod 10) @ ''.000Z''"

definition exParticipant :: "string \<Rightarrow> string \<Rightarrow> participant" where
  "exParticipant pno mob =
     \<lparr>p_no = pno, mobile_no = mob, name = ''Ravi'', trade = ''Fitter'', gender = ''M'',
      attendance_day1 = ''P'', attendance_day2 = ''A'',
      created_at = ''2023-12-31T00:00:00.000Z''\<rparr>"


definition exServer :: "participant list \<Rightarrow> server" where
  "exServer ps = \<lparr>participants = ps, dataFile = ps, fileWrites = 0\<rparr>"

definition exPerson :: "string \<Rightarrow> string \<Rightarrow> string \<Rightarrow> string \<Rightarrow> string \<Rightarrow> participant" where
  "exPerson pno mob nm tr g =
     \<lparr>p_no = pno, mobile_no = mob, name = nm, trade = tr, gender = g,
      attendance_day1 = ''P'', attendance_day2 = ''A'',
      created_at = ''2023-12-31T00:00:00.000Z''\<rparr>"

definition exStore3 :: "participant list" where
  "exStore3 = [exPerson ''P-001'' ''9876500001'' ''Asha Rao'' ''Welding'' ''F'',
               exPerson ''P-002'' ''9876500002'' ''Ravi Kumar'' ''Welding'' ''M'',
               exPerson ''Q-003'' ''9123400003'' ''asha devi'' ''Fitter'' ''F'']"

definition exStore25 :: "participant list" where
  "exStore25 = map (\<lambda>i. exParticipant (showNat i) (showNat (100 + i))) [0..<25]"

definition exQuery :: "int option \<Rightarrow> int option \<Rightarrow> query" where
  "exQuery pg lm =
     \<lparr>q_p_no = None, q_mobile_no = None, q_name = None, q_trade = None, q_gender = None,
      q_page = pg, q_limit = lm\<rparr>"

definition exFilterQuery :: query where
  "exFilterQuery =
     \<lparr>q_p_no = Some ''p-0'', q_mobile_no = Some ''98765'', q_name = Some ''ASHA'',
      q_trade = Some ''Welding'', q_gender = Some [], q_page = None, q_limit = None\<rparr>"

section \<open>The validation pass\<close>

lemma validateRows_append:
  "validateRows st k (xs @ ys) = validateRows (validateRows st k xs) (k + length xs) ys"
  by (induction xs arbitrary: st k) simp_all

lemma validateRows_snoc:
  "validateRows st k (xs @ [r]) = validateRow (validateRows st k xs) r (k + length xs)"
  by (simp add: validateRows_append)

lemma vstateBefore_Suc:
  assumes "i < length jsonData"
  shows "vstateBefore jsonData (Suc i) = validateRow (vstateBefore jsonData i) (jsonData ! i) i"
proof -
  have "take (Suc i) jsonData = take i jsonData @ [jsonData ! i]"
    using assms by (rule take_Suc_conv_app_nth)
  then show ?thesis
    using assms by (simp add: vstateBefore_def validate_def validateRows_snoc)
qed

lemma vstateBefore_errors:
  "n \<le> length jsonData \<Longrightarrow>
   validationErrors (vstateBefore jsonData n) =
     concat (map (\<lambda>i. rowErrors (vstateBefore jsonData i) (jsonData ! i) i) [0..<n])"
proof (induction n)
  case 0
  then show ?case by (simp add: vstateBefore_def validate_def)
next
  case (Suc n)
  then show ?case
    by (simp add: vstateBefore_Suc validateRow_def)
qed

lemma validate_errors:
  "validationErrors (validate jsonData) =
     concat (map (\<lambda>i. rowErrors (vstateBefore jsonData i) (jsonData ! i) i)
               [0..<length jsonData])"
  using vstateBefore_errors [of "length jsonData" jsonData]
  by (simp add: vstateBefore_def)

lemma vstateBefore_seenPNo:
  "n \<le> length jsonData \<Longrightarrow>
   seenPNo (vstateBefore jsonData n) =
     {v. \<exists>j<n. v = get (jsonData ! j) ''P.No'' \<and> truthy v}"
proof (induction n)
  case 0
  then show ?case by (simp add: vstateBefore_def validate_def)
next
  case (Suc n)
  then have "seenPNo (vstateBefore jsonData n) =
      {v. \<exists>j<n. v = get (jsonData ! j) ''P.No'' \<and> truthy v}" by simp
  moreover from Suc.prems have "n < length jsonData" by simp
  ultimately show ?case
    by (auto simp: vstateBefore_Suc validateRow_def less_Suc_eq)
qed

lemma vstateBefore_seenMobileNo:
  "n \<le> length jsonData \<Longrightarrow>
   seenMobileNo (vstateBefore jsonData n) =
     {v. \<exists>j<n. v = get (jsonData ! j) ''Mobile No'' \<and> truthy v}"
proof (induction n)
  case 0
  then show ?case by (simp add: vstateBefore_def validate_def)
next
  case (Suc n)
  then have "seenMobileNo (vstateBefore jsonData n) =
      {v. \<exists>j<n. v = get (jsonData ! j) ''Mobile No'' \<and> truthy v}" by simp
  moreover from Suc.prems have "n < length jsonData" by simp
  ultimately show ?case
    by (auto simp: vstateBefore_Suc validateRow_def less_Suc_eq)
qed

lemma falsy_iff: "falsy v = (\<not> truthy v)"
  by (cases v) (auto simp: falsy_def)

lemma rowErrors_nonempty_iff:
  "(rowErrors st r i \<noteq> []) =
     (\<not> truthy (get r ''P.No'') \<or> \<not> truthy (get r ''Mobile No'') \<or> \<not> truthy (get r ''Name'')
      \<or> get r ''P.No'' \<in> seenPNo st \<or> get r ''Mobile No'' \<in> seenMobileNo st
      \<or> \<not> validAttendance (get r ''Attendance Day 1'')
      \<or> \<not> validAttendance (get r ''Attendance Day 2''))"
  by (auto simp: rowErrors_def)

lemma rowErrors_label:
  "e \<in> set (rowErrors st r i) \<Longrightarrow> \<exists>rest. e = rowLabel i @ rest"
  by (auto simp: rowErrors_def split: if_splits)

lemma missingColumns_eq:
  "missingColumns jsonData = filter (\<lambda>c. c \<notin> firstRowKeys jsonData) requiredColumns"
  by (cases jsonData)
    (auto simp: missingColumns_def firstRowKeys_def hasOwnProperty_def dom_def intro: filter_cong)

lemmas eval_defs =
  exRow_def exClock_def exParticipant_def exServer_def get_def requiredColumns_def
  missingColumns_def hasOwnProperty_def vstateBefore_def validate_def validateRow_def
  rowErrors_def validAttendance_def trim_def toUpperCase_def upperChar_def isSpace_def
  lowerLetters_def upperLetters_def rowLabel_def showNat.simps digit_def

text \<open>
  C8. When the first row of a batch lacks a required column (an empty sheet lacks all of
  them), the upload answers 400 with the list of exactly the required columns that are
  absent from the first row, in the order of the required list, and an error text naming
  them; the server state (the store, the data file and its write count) is returned
  unchanged, so nothing is inserted, and no row-level validation result is produced.
\<close>

theorem upload_missing_columns:
  assumes "\<exists>c \<in> set requiredColumns. c \<notin> firstRowKeys jsonData"
  shows "upload clock srv jsonData =
           (\<lparr>status = 400,
             body = MissingColumnsError
                      (''Missing required columns: ''
                         @ join (filter (\<lambda>c. c \<notin> firstRowKeys jsonData) requiredColumns) '', '')
                      (filter (\<lambda>c. c \<notin> firstRowKeys jsonData) requiredColumns)\<rparr>, srv)"
proof -
  from assms have "filter (\<lambda>c. c \<notin> firstRowKeys jsonData) requiredColumns \<noteq> []"
    by (simp add: filter_empty_conv)
  then show ?thesis
    by (simp add: upload_def missingColumns_eq)
qed

theorem upload_missing_columns_witness:
  "upload exClock (exServer [exParticipant ''7'' ''70''])
     [[''P.No'' \<mapsto> Text ''1'', ''Name'' \<mapsto> Text ''Asha'', ''Trade'' \<mapsto> Text ''Welding'']]
   = (\<lparr>status = 400,
       body = MissingColumnsError
                ''Missing required columns: Mobile No, Gender, Attendance Day 1, Attendance Day 2''
                [''Mobile No'', ''Gender'', ''Attendance Day 1'', ''Attendance Day 2'']\<rparr>,
      exServer [exParticipant ''7'' ''70''])"
proof -
  have h: "\<exists>c \<in> set requiredColumns. c \<notin> firstRowKeys
      [[''P.No'' \<mapsto> Text ''1'', ''Name'' \<mapsto> Text ''Asha'', ''Trade'' \<mapsto> Text ''Welding'']]"
    by (simp add: requiredColumns_def firstRowKeys_def)
  show ?thesis
    using upload_missing_columns [OF h, of exClock "exServer [exParticipant ''7'' ''70'']"]
    by (simp add: requiredColumns_def firstRowKeys_def)
qed

text \<open>
  C3. When the required columns are present and the validation loop pushes at least one
  message for some row, the upload answers 400 "Validation failed" with the messages of
  every row of the batch, in row order (all of them, not only the first), and the server
  state is returned unchanged: no record is appended and the data file is not written.
\<close>

theorem upload_validation_failed:
  assumes "missingColumns jsonData = []"
    and "i < length jsonData"
    and "rowErrors (vstateBefore jsonData i) (jsonData ! i) i \<noteq> []"
  shows "upload clock srv jsonData =
           (\<lparr>status = 400,
             body = ValidationFailed ''Validation failed''
                      (concat (map (\<lambda>j. rowErrors (vstateBefore jsonData j) (jsonData ! j) j)
                                 [0..<length jsonData]))\<rparr>, srv)"
proof -
  have "i \<in> set [0..<length jsonData]"
    using assms(2) by simp
  with assms(3) have "validationErrors (validate jsonData) \<noteq> []"
    unfolding validate_errors concat_eq_Nil_conv by force
  with assms(1) show ?thesis
    by (simp add: upload_def validate_errors)
qed

theorem upload_validation_failed_witness:
  "upload exClock (exServer [exParticipant ''7'' ''70''])
     [exRow ''1'' ''91'' ''P'' ''x'', exRow ''1'' ''92'' ''q'' '' a'']
   = (\<lparr>status = 400,
       body = ValidationFailed ''Validation failed''
                [''Row 2: Invalid value for Attendance Day 2 (expected P or A, got x)'',
                 ''Row 3: Duplicate P.No '' @ [CHR 0x27] @ ''1'' @ [CHR 0x27],
                 ''Row 3: Invalid value for Attendance Day 1 (expected P or A, got q)'']\<rparr>,
      exServer [exParticipant ''7'' ''70''])"
proof -
  have h1: "missingColumns [exRow ''1'' ''91'' ''P'' ''x'', exRow ''1'' ''92'' ''q'' '' a''] = []"
    by (simp add: eval_defs)
  have h2: "0 < length [exRow ''1'' ''91'' ''P'' ''x'', exRow ''1'' ''92'' ''q'' '' a'']"
    by simp
  have h3: "rowErrors
      (vstateBefore [exRow ''1'' ''91'' ''P'' ''x'', exRow ''1'' ''92'' ''q'' '' a''] 0)
      ([exRow ''1'' ''91'' ''P'' ''x'', exRow ''1'' ''92'' ''q'' '' a''] ! 0) 0 \<noteq> []"
    by (simp add: eval_defs)
  show ?thesis
    using upload_validation_failed [OF h1 h2 h3, of exClock "exServer [exParticipant ''7'' ''70'']"]
    by (simp add: eval_defs upt_rec)
qed

text \<open>
  What the validation loop does at the row of index \<open>i\<close>: it pushes at least one
  message exactly when the row's P.No, Mobile No or Name is falsy, or its P.No or
  Mobile No is not falsy and is the same value, without conversion, as that column in an
  earlier row, or one of its two attendance cells is not valid. Every message pushed
  at that row begins with "Row", the number \<open>i + 2\<close> and a colon.
\<close>

lemma rowErrors_iff:
  assumes "i < length jsonData"
  shows "(rowErrors (vstateBefore jsonData i) (jsonData ! i) i \<noteq> [])
           = (falsy (get (jsonData ! i) ''P.No'') \<or> falsy (get (jsonData ! i) ''Mobile No'')
              \<or> falsy (get (jsonData ! i) ''Name'')
              \<or> (\<not> falsy (get (jsonData ! i) ''P.No'') \<and> repeatsEarlier jsonData i ''P.No'')
              \<or> (\<not> falsy (get (jsonData ! i) ''Mobile No'')
                    \<and> repeatsEarlier jsonData i ''Mobile No'')
              \<or> \<not> validAttendance (get (jsonData ! i) ''Attendance Day 1'')
              \<or> \<not> validAttendance (get (jsonData ! i) ''Attendance Day 2''))
         \<and> (\<forall>e \<in> set (rowErrors (vstateBefore jsonData i) (jsonData ! i) i).
               \<exists>rest. e = ''Row '' @ showNat (i + 2) @ '': '' @ rest)"
proof -
  have le: "i \<le> length jsonData" using assms by simp
  have p: "(get (jsonData ! i) ''P.No'' \<in> seenPNo (vstateBefore jsonData i))
             = (\<not> falsy (get (jsonData ! i) ''P.No'') \<and> repeatsEarlier jsonData i ''P.No'')"
    by (auto simp: vstateBefore_seenPNo [OF le] falsy_iff repeatsEarlier_def)
  have m: "(get (jsonData ! i) ''Mobile No'' \<in> seenMobileNo (vstateBefore jsonData i))
             = (\<not> falsy (get (jsonData ! i) ''Mobile No'')
                  \<and> repeatsEarlier jsonData i ''Mobile No'')"
    by (auto simp: vstateBefore_seenMobileNo [OF le] falsy_iff repeatsEarlier_def)
  have lab: "\<forall>e \<in> set (rowErrors (vstateBefore jsonData i) (jsonData ! i) i).
               \<exists>rest. e = ''Row '' @ showNat (i + 2) @ '': '' @ rest"
    using rowErrors_label [of _ "vstateBefore jsonData i" "jsonData ! i" i]
    by (auto simp: rowLabel_def)
  show ?thesis
    unfolding rowErrors_nonempty_iff p m using lab by (simp add: falsy_iff)
qed

text \<open>
  C2 does not hold of the code. The required-field guard tests truthiness, so a row
  whose P.No cell is present and holds the number 0 is rejected with "Missing required
  fields" although no cell of it is empty or missing, nothing repeats and both
  attendance values are valid. The duplicate test compares without conversion, so a
  second row whose P.No is the text "5" after a row whose P.No is the number 5 gets no
  message at all: the batch passes validation and the second row is then skipped by the
  insertion pass.
\<close>

theorem upload_rejects_zero_p_no:
  "hasOwnProperty ((exRow ''1'' ''91'' ''P'' ''A'')(''P.No'' \<mapsto> Number 0)) ''P.No''
   \<and> \<not> emptyOrMissing (get ((exRow ''1'' ''91'' ''P'' ''A'')(''P.No'' \<mapsto> Number 0)) ''P.No'')
   \<and> toString (get ((exRow ''1'' ''91'' ''P'' ''A'')(''P.No'' \<mapsto> Number 0)) ''P.No'') = ''0''
   \<and> upload exClock (exServer []) [(exRow ''1'' ''91'' ''P'' ''A'')(''P.No'' \<mapsto> Number 0)]
       = (\<lparr>status = 400,
           body = ValidationFailed ''Validation failed''
                    [''Row 2: Missing required fields (P.No, Mobile No, or Name)'']\<rparr>,
          exServer [])
   \<and> upload exClock (exServer [])
         [(exRow ''5'' ''91'' ''P'' ''A'')(''P.No'' \<mapsto> Number 5), exRow ''5'' ''92'' ''P'' ''A'']
       = (\<lparr>status = 200, body = UploadOk ''Successfully processed 2 records'' 1 1\<rparr>,
          \<lparr>participants =
             [newParticipant ''2024-01-01T00:00:00.000Z''
                ((exRow ''5'' ''91'' ''P'' ''A'')(''P.No'' \<mapsto> Number 5))],
           dataFile =
             [newParticipant ''2024-01-01T00:00:00.000Z''
                ((exRow ''5'' ''91'' ''P'' ''A'')(''P.No'' \<mapsto> Number 5))],
           fileWrites = 1\<rparr>)"
  by (simp add: emptyOrMissing_def eval_defs showInt_def
      istateBefore_def insertRows_def insertRow_def isDuplicate_def existingKeys_def
      newParticipant_def orElse_def saveDataToFile_def upload_def)

section \<open>Detail lookup\<close>

text \<open>
  C10. When no stored record has the requested p_no, the lookup answers 404 with the
  body "Participant not found"; when some record has it, the lookup answers 200 with
  the first such record in store order. The lookup is a total function whose only
  outcomes are these two, so it has no failing path.
\<close>

theorem getParticipant_total:
  "((\<forall>p \<in> set (participants srv). p_no p \<noteq> k) \<longrightarrow>
      getParticipant srv k = \<lparr>status = 404, body = ErrorBody ''Participant not found''\<rparr>)
   \<and> ((\<exists>p \<in> set (participants srv). p_no p = k) \<longrightarrow>
      (\<exists>i < length (participants srv).
         p_no (participants srv ! i) = k
         \<and> (\<forall>j < i. p_no (participants srv ! j) \<noteq> k)
         \<and> getParticipant srv k = \<lparr>status = 200, body = ParticipantBody (participants srv ! i)\<rparr>))"
proof (cases "find (\<lambda>p. p_no p = k) (participants srv)")
  case None
  then have "\<forall>p \<in> set (participants srv). p_no p \<noteq> k"
    by (auto simp: find_None_iff)
  with None show ?thesis
    by (auto simp: getParticipant_def)
next
  case (Some p)
  then obtain i where i: "i < length (participants srv)" "p_no (participants srv ! i) = k"
    "p = participants srv ! i" "\<forall>j<i. p_no (participants srv ! j) \<noteq> k"
    unfolding find_Some_iff by blast
  then have "\<exists>p \<in> set (participants srv). p_no p = k"
    using nth_mem by blast
  with Some i show ?thesis
    by (auto simp: getParticipant_def)
qed

theorem getParticipant_total_witness:
  "getParticipant (exServer [exParticipant ''7'' ''70'', exParticipant ''8'' ''80'']) ''9''
     = \<lparr>status = 404, body = ErrorBody ''Participant not found''\<rparr>
   \<and> getParticipant (exServer [exParticipant ''7'' ''70'', exParticipant ''8'' ''80'']) ''8''
     = \<lparr>status = 200, body = ParticipantBody (exParticipant ''8'' ''80'')\<rparr>"
proof -
  have a: "\<forall>p \<in> set (participants (exServer [exParticipant ''7'' ''70'', exParticipant ''8'' ''80''])).
             p_no p \<noteq> ''9''"
    by (simp add: exServer_def exParticipant_def)
  have b: "\<exists>p \<in> set (participants (exServer [exParticipant ''7'' ''70'', exParticipant ''8'' ''80''])).
             p_no p = ''8''"
    by (simp add: exServer_def exParticipant_def)
  from getParticipant_total [of "exServer [exParticipant ''7'' ''70'', exParticipant ''8'' ''80'']" "''9''"] a
  have n: "getParticipant (exServer [exParticipant ''7'' ''70'', exParticipant ''8'' ''80'']) ''9''
     = \<lparr>status = 404, body = ErrorBody ''Participant not found''\<rparr>"
    by blast
  from getParticipant_total [of "exServer [exParticipant ''7'' ''70'', exParticipant ''8'' ''80'']" "''8''"] b
  obtain i where i: "i < length (participants (exServer [exParticipant ''7'' ''70'', exParticipant ''8'' ''80'']))"
    "p_no (participants (exServer [exParticipant ''7'' ''70'', exParticipant ''8'' ''80'']) ! i) = ''8''"
    "getParticipant (exServer [exParticipant ''7'' ''70'', exParticipant ''8'' ''80'']) ''8''
       = \<lparr>status = 200,
          body = ParticipantBody
            (participants (exServer [exParticipant ''7'' ''70'', exParticipant ''8'' ''80'']) ! i)\<rparr>"
    by blast
  from i(1,2) have "i = 1"
    by (simp add: exServer_def exParticipant_def less_Suc_eq nth_Cons' split: if_splits)
  with i(3) have "getParticipant (exServer [exParticipant ''7'' ''70'', exParticipant ''8'' ''80'']) ''8''
     = \<lparr>status = 200, body = ParticipantBody (exParticipant ''8'' ''80'')\<rparr>"
    by (simp add: exServer_def)
  with n show ?thesis by simp
qed

section \<open>The insertion pass\<close>

lemma existingKeys_fold:
  "foldl (\<lambda>m p. insert (Text (mobile_no p)) (insert (Text (p_no p)) m)) K ps
     = K \<union> Text ` (p_no ` set ps \<union> mobile_no ` set ps)"
  by (induction ps arbitrary: K) auto

lemma existingKeys_eq: "existingKeys ps = Text ` (p_no ` set ps \<union> mobile_no ` set ps)"
  by (simp add: existingKeys_def existingKeys_fold)

lemma istateBefore_0:
  "istateBefore clock ps jsonData 0 =
     \<lparr>duplicateCheck = existingKeys ps, newParticipants = [], insertCount = 0\<rparr>"
  by (simp add: istateBefore_def insertRows_def)

lemma istateBefore_Suc:
  assumes "i < length jsonData"
  shows "istateBefore clock ps jsonData (Suc i)
           = insertRow clock (istateBefore clock ps jsonData i) (jsonData ! i)"
proof -
  have "take (Suc i) jsonData = take i jsonData @ [jsonData ! i]"
    using assms by (rule take_Suc_conv_app_nth)
  then show ?thesis
    by (simp add: istateBefore_def insertRows_def)
qed

lemma keptIndices_Suc:
  "keptIndices clock ps jsonData (Suc n) =
     keptIndices clock ps jsonData n @ (if skipped clock ps jsonData n then [] else [n])"
  by (simp add: keptIndices_def)




lemma istateBefore_keys:
  "n \<le> length jsonData \<Longrightarrow>
   duplicateCheck (istateBefore clock ps jsonData n) = Text ` keysBefore clock ps jsonData n"
proof (induction n)
  case 0
  then show ?case
    by (simp add: istateBefore_0 existingKeys_eq keysBefore_def keptIndices_def)
next
  case (Suc n)
  then have ih:
    "duplicateCheck (istateBefore clock ps jsonData n) = Text ` keysBefore clock ps jsonData n"
    and n: "n < length jsonData" by simp_all
  show ?case
  proof (cases "skipped clock ps jsonData n")
    case True
    then show ?thesis
      using ih by (simp add: istateBefore_Suc [OF n] insertRow_def skipped_def keysBefore_def
          keptIndices_Suc)
  next
    case False
    then show ?thesis
      using ih by (auto simp: istateBefore_Suc [OF n] insertRow_def skipped_def keysBefore_def
          keptIndices_Suc Let_def newParticipant_def rowPNo_def rowMobileNo_def)
  qed
qed


lemma skipped_iff:
  assumes "i < length jsonData"
  shows "skipped clock ps jsonData i =
           (\<exists>k \<in> keysBefore clock ps jsonData i.
              get (jsonData ! i) ''P.No'' = Text k \<or> get (jsonData ! i) ''Mobile No'' = Text k)"
proof -
  have "i \<le> length jsonData" using assms by simp
  from istateBefore_keys [OF this] show ?thesis
    by (auto simp: skipped_def isDuplicate_def)
qed


lemmas eval_insert_defs =
  istateBefore_def insertRows_def insertRow_def isDuplicate_def existingKeys_def
  newParticipant_def orElse_def skipped_def keptIndices_def skippedIndices_def
  appendedRecords_def saveDataToFile_def upload_def




text \<open>
  The key set the insertion pass starts from holds the p_no and the mobile_no of every
  stored record. A row whose P.No or Mobile No is a text cell equal to either key of
  any stored record is skipped: the loop state after the row is the state before it.
  There are a store and a row whose P.No equals a stored mobile_no, with no other
  collision, and the row is skipped.
\<close>

lemma merged_key_skip:
  "existingKeys ps = Text ` (p_no ` set ps \<union> mobile_no ` set ps)
   \<and> (\<forall>i p k. i < length jsonData \<and> p \<in> set ps \<and> (k = p_no p \<or> k = mobile_no p)
        \<and> (get (jsonData ! i) ''P.No'' = Text k \<or> get (jsonData ! i) ''Mobile No'' = Text k)
      \<longrightarrow> skipped clock ps jsonData i
          \<and> istateBefore clock ps jsonData (Suc i) = istateBefore clock ps jsonData i)
   \<and> (\<exists>qs r. (\<exists>p \<in> set qs. get r ''P.No'' = Text (mobile_no p))
         \<and> (\<forall>p \<in> set qs. get r ''P.No'' \<noteq> Text (p_no p)
               \<and> get r ''Mobile No'' \<noteq> Text (p_no p)
               \<and> get r ''Mobile No'' \<noteq> Text (mobile_no p))
         \<and> skipped clock qs [r] 0)"
proof (intro conjI allI impI)
  show "existingKeys ps = Text ` (p_no ` set ps \<union> mobile_no ` set ps)"
    by (rule existingKeys_eq)
next
  fix i p k
  assume a: "i < length jsonData \<and> p \<in> set ps \<and> (k = p_no p \<or> k = mobile_no p)
        \<and> (get (jsonData ! i) ''P.No'' = Text k \<or> get (jsonData ! i) ''Mobile No'' = Text k)"
  then have i: "i < length jsonData" by simp
  from a have "k \<in> keysBefore clock ps jsonData i"
    by (auto simp: keysBefore_def)
  with a show sk: "skipped clock ps jsonData i"
    unfolding skipped_iff [OF i] by blast
  then show "istateBefore clock ps jsonData (Suc i) = istateBefore clock ps jsonData i"
    by (simp add: istateBefore_Suc [OF i] insertRow_def skipped_def)
next
  have "(\<exists>p \<in> set [exParticipant ''7'' ''70'']. get (exRow ''70'' ''1'' ''P'' ''A'') ''P.No'' = Text (mobile_no p))
         \<and> (\<forall>p \<in> set [exParticipant ''7'' ''70''].
               get (exRow ''70'' ''1'' ''P'' ''A'') ''P.No'' \<noteq> Text (p_no p)
               \<and> get (exRow ''70'' ''1'' ''P'' ''A'') ''Mobile No'' \<noteq> Text (p_no p)
               \<and> get (exRow ''70'' ''1'' ''P'' ''A'') ''Mobile No'' \<noteq> Text (mobile_no p))
         \<and> skipped clock [exParticipant ''7'' ''70''] [exRow ''70'' ''1'' ''P'' ''A''] 0"
    by (simp add: eval_defs eval_insert_defs)
  then show "\<exists>qs r. (\<exists>p \<in> set qs. get r ''P.No'' = Text (mobile_no p))
         \<and> (\<forall>p \<in> set qs. get r ''P.No'' \<noteq> Text (p_no p)
               \<and> get r ''Mobile No'' \<noteq> Text (p_no p)
               \<and> get r ''Mobile No'' \<noteq> Text (mobile_no p))
         \<and> skipped clock qs [r] 0"
    by blast
qed

text \<open>
  C9 does not hold of the code for cells that are not text. The keys of the merged set
  are the stored strings, and \<open>has\<close> compares without conversion, so a numeric cell
  never equals a stored key: a row whose P.No and Mobile No are the numbers 5 and 70 is
  stored under p_no "5" and mobile_no "70", the keys of a record already in the store,
  and is inserted all the same.
\<close>

theorem upload_numeric_keys_reinserted:
  "rowPNo ((exRow ''5'' ''70'' ''P'' ''A'')(''P.No'' \<mapsto> Number 5, ''Mobile No'' \<mapsto> Number 70))
     = p_no (exParticipant ''5'' ''70'')
   \<and> rowMobileNo
        ((exRow ''5'' ''70'' ''P'' ''A'')(''P.No'' \<mapsto> Number 5, ''Mobile No'' \<mapsto> Number 70))
     = mobile_no (exParticipant ''5'' ''70'')
   \<and> upload exClock (exServer [exParticipant ''5'' ''70''])
     [(exRow ''5'' ''70'' ''P'' ''A'')(''P.No'' \<mapsto> Number 5, ''Mobile No'' \<mapsto> Number 70)]
   = (\<lparr>status = 200, body = UploadOk ''Successfully processed 1 records'' 1 0\<rparr>,
      \<lparr>participants = [exParticipant ''5'' ''70'',
          newParticipant ''2024-01-01T00:00:00.000Z''
            ((exRow ''5'' ''70'' ''P'' ''A'')(''P.No'' \<mapsto> Number 5, ''Mobile No'' \<mapsto> Number 70))],
        dataFile = [exParticipant ''5'' ''70'',
          newParticipant ''2024-01-01T00:00:00.000Z''
            ((exRow ''5'' ''70'' ''P'' ''A'')(''P.No'' \<mapsto> Number 5, ''Mobile No'' \<mapsto> Number 70))],
        fileWrites = 1\<rparr>)"
  by (simp add: eval_defs eval_insert_defs showInt_def rowPNo_def rowMobileNo_def)

text \<open>
  C1 does not hold of the code. Validation trims the attendance value before comparing
  it with P and A, but the stored field is the upper-cased string without the trim: the
  attendance value " p " passes validation and is stored as " P ".
\<close>

theorem upload_stores_untrimmed_attendance:
  "upload exClock (exServer []) [exRow ''1'' ''91'' '' p '' ''A'']
   = (\<lparr>status = 200, body = UploadOk ''Successfully processed 1 records'' 1 0\<rparr>,
      \<lparr>participants =
         [\<lparr>p_no = ''1'', mobile_no = ''91'', name = ''Asha'', trade = ''Welding'', gender = ''F'',
           attendance_day1 = '' P '', attendance_day2 = ''A'',
           created_at = ''2024-01-01T00:00:00.000Z''\<rparr>],
       dataFile =
         [\<lparr>p_no = ''1'', mobile_no = ''91'', name = ''Asha'', trade = ''Welding'', gender = ''F'',
           attendance_day1 = '' P '', attendance_day2 = ''A'',
           created_at = ''2024-01-01T00:00:00.000Z''\<rparr>],
       fileWrites = 1\<rparr>)"
  by (simp add: eval_defs eval_insert_defs)

section \<open>Search\<close>

lemma startsWith_iff: "startsWith s t = (\<exists>suf. s = t @ suf)"
  by (induction s t rule: startsWith.induct) auto

lemma includes_str_iff: "includes_str s t = substringOf t s"
proof (induction s)
  case Nil
  show ?case by (auto simp: substringOf_def)
next
  case (Cons d s)
  have "substringOf t (d # s) = ((\<exists>suf. d # s = t @ suf) \<or> substringOf t s)"
  proof
    assume "substringOf t (d # s)"
    then obtain pre suf where e: "d # s = pre @ t @ suf"
      by (auto simp: substringOf_def)
    show "(\<exists>suf. d # s = t @ suf) \<or> substringOf t s"
    proof (cases pre)
      case Nil
      with e show ?thesis by auto
    next
      case (Cons a pre')
      with e have "s = pre' @ t @ suf" by simp
      then show ?thesis by (auto simp: substringOf_def)
    qed
  next
    assume "(\<exists>suf. d # s = t @ suf) \<or> substringOf t s"
    then show "substringOf t (d # s)"
    proof
      assume "\<exists>suf. d # s = t @ suf"
      then obtain suf where "d # s = [] @ t @ suf" by auto
      then show ?thesis unfolding substringOf_def by blast
    next
      assume "substringOf t s"
      then obtain pre suf where "s = pre @ t @ suf" by (auto simp: substringOf_def)
      then have "d # s = (d # pre) @ t @ suf" by simp
      then show ?thesis unfolding substringOf_def by blast
    qed
  qed
  with Cons show ?case
    by (simp add: startsWith_iff)
qed

lemma whenGiven_filter: "whenGiven f pred ps = filter (\<lambda>p. passes f (\<lambda>s. pred s p)) ps"
  by (cases f) (simp_all add: whenGiven_def passes_def)

lemma whenGiven_notSupplied: "notSupplied f \<Longrightarrow> whenGiven f pred ps = ps"
  by (auto simp: whenGiven_def notSupplied_def)

lemmas eval_search_defs =
  exPerson_def exStore3_def exQuery_def exFilterQuery_def filteredParticipants_def whenGiven_def
  toLowerCase_def lowerChar_def upperLetters_def lowerLetters_def pageOf_def limitOf_def
  exServer_def exParticipant_def

lemma table_lower_eq_iff:
  assumes "length U = length L" "distinct U" "distinct L" "set U \<inter> set L = {}"
  shows "((case map_of (zip U L) c of None \<Rightarrow> c | Some l \<Rightarrow> l)
            = (case map_of (zip U L) d of None \<Rightarrow> d | Some l \<Rightarrow> l))
         = (c = d \<or> (c, d) \<in> set (zip U L) \<or> (d, c) \<in> set (zip U L))"
proof -
  have dz: "distinct (map fst (zip U L))"
    using assms(1,2) by simp
  have some: "\<And>x y. (map_of (zip U L) x = Some y) = ((x, y) \<in> set (zip U L))"
    using dz by (auto dest: map_of_SomeD intro: map_of_is_SomeI)
  have none: "\<And>x. (map_of (zip U L) x = None) = (x \<notin> set U)"
  proof -
    fix x
    have "fst ` set (zip U L) = set U"
      using assms(1) by (simp flip: set_map)
    then show "(map_of (zip U L) x = None) = (x \<notin> set U)"
      by (simp add: map_of_eq_None_iff)
  qed
  have left: "\<And>x y. (x, y) \<in> set (zip U L) \<Longrightarrow> x \<in> set U \<and> y \<in> set L"
    by (auto dest: set_zip_leftD set_zip_rightD)
  have inj: "\<And>x x' y. (x, y) \<in> set (zip U L) \<Longrightarrow> (x', y) \<in> set (zip U L) \<Longrightarrow> x = x'"
  proof -
    fix x x' y
    assume a: "(x, y) \<in> set (zip U L)" and b: "(x', y) \<in> set (zip U L)"
    from a obtain i where i: "i < length U" "i < length L" "U ! i = x" "L ! i = y"
      by (auto simp: set_zip)
    from b obtain j where j: "j < length U" "j < length L" "U ! j = x'" "L ! j = y"
      by (auto simp: set_zip)
    from i j have e: "L ! i = L ! j" by simp
    have "i = j"
      using nth_eq_iff_index_eq [OF assms(3) i(2) j(2)] e by blast
    with i j show "x = x'" by simp
  qed
  show ?thesis
  proof (cases "map_of (zip U L) c")
    case None
    note nc = None
    then have cU: "c \<notin> set U" by (simp add: none)
    show ?thesis
    proof (cases "map_of (zip U L) d")
      case None
      then have dU: "d \<notin> set U" by (simp add: none)
      from cU dU left have "(c, d) \<notin> set (zip U L)" "(d, c) \<notin> set (zip U L)"
        by blast+
      with nc None show ?thesis by simp
    next
      case (Some l)
      then have dl: "(d, l) \<in> set (zip U L)" by (simp add: some)
      with left have dU: "d \<in> set U" and lL: "l \<in> set L" by blast+
      have "c \<noteq> d" using cU dU by blast
      moreover have "(c, d) \<notin> set (zip U L)" using cU left by blast
      moreover have "((d, c) \<in> set (zip U L)) = (c = l)"
        using dl some [of d c] Some by auto
      ultimately show ?thesis using nc Some by simp
    qed
  next
    case (Some k)
    note sc = Some
    then have ck: "(c, k) \<in> set (zip U L)" by (simp add: some)
    with left have cU: "c \<in> set U" and kL: "k \<in> set L" by blast+
    show ?thesis
    proof (cases "map_of (zip U L) d")
      case None
      then have dU: "d \<notin> set U" by (simp add: none)
      have "c \<noteq> d" using cU dU by blast
      moreover have "(d, c) \<notin> set (zip U L)" using dU left by blast
      moreover have "((c, d) \<in> set (zip U L)) = (k = d)"
        using ck some [of c d] sc by auto
      ultimately show ?thesis using sc None by simp
    next
      case (Some l)
      then have dl: "(d, l) \<in> set (zip U L)" by (simp add: some)
      with left have dU: "d \<in> set U" and lL: "l \<in> set L" by blast+
      have "(c, d) \<notin> set (zip U L)" using dU left assms(4) by blast
      moreover have "(d, c) \<notin> set (zip U L)" using cU left assms(4) by blast
      moreover have "(k = l) = (c = d)"
        using ck dl inj sc Some by auto
      ultimately show ?thesis using sc Some by simp
    qed
  qed
qed

lemma lowerChar_eq_iff: "(lowerChar c = lowerChar d) = sameLetter c d"
  unfolding lowerChar_def sameLetter_def
  by (rule table_lower_eq_iff) (simp_all add: upperLetters_def lowerLetters_def)

lemma toLowerCase_eq_iff: "(toLowerCase a = toLowerCase b) = list_all2 sameLetter a b"
proof -
  have "(map lowerChar a = map lowerChar b) = list_all2 (=) (map lowerChar a) (map lowerChar b)"
    by (simp add: list.rel_eq)
  also have "\<dots> = list_all2 (\<lambda>x y. lowerChar x = lowerChar y) a b"
    by (simp add: list.rel_map)
  finally show ?thesis
    by (simp add: toLowerCase_def lowerChar_eq_iff)
qed

lemma includes_lower_iff:
  "includes_str (toLowerCase s) (toLowerCase t) = matchesIgnoringCase t s"
proof
  assume "includes_str (toLowerCase s) (toLowerCase t)"
  then obtain pre' suf' where e: "map lowerChar s = pre' @ map lowerChar t @ suf'"
    by (auto simp: includes_str_iff substringOf_def toLowerCase_def)
  then obtain pre vs where s: "s = pre @ vs" and v: "map lowerChar t @ suf' = map lowerChar vs"
    by (auto simp: map_eq_append_conv)
  from v obtain mid suf where vs: "vs = mid @ suf" and m: "map lowerChar t = map lowerChar mid"
    by (auto simp: append_eq_map_conv)
  from m have "list_all2 sameLetter mid t"
    using toLowerCase_eq_iff [of mid t] by (simp add: toLowerCase_def)
  with s vs show "matchesIgnoringCase t s"
    unfolding matchesIgnoringCase_def by blast
next
  assume "matchesIgnoringCase t s"
  then obtain pre mid suf where s: "s = pre @ mid @ suf" and m: "list_all2 sameLetter mid t"
    unfolding matchesIgnoringCase_def by blast
  from m have "toLowerCase mid = toLowerCase t"
    by (simp add: toLowerCase_eq_iff)
  with s have "toLowerCase s = toLowerCase pre @ toLowerCase t @ toLowerCase suf"
    by (simp add: toLowerCase_def)
  then show "includes_str (toLowerCase s) (toLowerCase t)"
    unfolding includes_str_iff substringOf_def by blast
qed

lemma includes_str_fun: "includes_str s = (\<lambda>t. substringOf t s)"
  by (rule ext) (rule includes_str_iff)

text \<open>
  C5. For ASCII text in the stored p_no and name fields and in the p_no and name
  parameters, the five conditional filter steps together keep exactly the records that
  satisfy every supplied filter, in store order: p_no and name by a substring match
  ignoring the case of letters, mobile_no by a substring match as written, trade and
  gender by equality. A filter parameter counts as supplied when it is present and not
  empty (an empty value is falsy and skips the step). With no filter supplied the
  result is the whole store, and the search response is the page of the filtered list.
\<close>

theorem filteredParticipants_conjunctive:
  assumes "list_all (\<lambda>p. isAscii (p_no p) \<and> isAscii (name p)) (participants srv)"
    and "asciiFilter (q_p_no q)" and "asciiFilter (q_name q)"
  shows "filteredParticipants q (participants srv) = filter (satisfiesAll q) (participants srv)
   \<and> (notSupplied (q_p_no q) \<and> notSupplied (q_mobile_no q) \<and> notSupplied (q_name q)
        \<and> notSupplied (q_trade q) \<and> notSupplied (q_gender q)
      \<longrightarrow> filteredParticipants q (participants srv) = participants srv)
   \<and> search srv q =
       \<lparr>status = 200,
        body = SearchBody
                 (paginatedResults (filter (satisfiesAll q) (participants srv)) (pageOf q) (limitOf q))
                 (paginationOf (filter (satisfiesAll q) (participants srv)) (pageOf q) (limitOf q))\<rparr>"
proof -
  have a: "filteredParticipants q xs = filter (satisfiesAll q) xs" for xs
    unfolding filteredParticipants_def whenGiven_filter filter_filter includes_lower_iff
    by (rule filter_cong) (auto simp: satisfiesAll_def includes_str_fun)
  have b: "notSupplied (q_p_no q) \<and> notSupplied (q_mobile_no q) \<and> notSupplied (q_name q)
        \<and> notSupplied (q_trade q) \<and> notSupplied (q_gender q)
      \<longrightarrow> filteredParticipants q (participants srv) = participants srv"
    by (simp add: filteredParticipants_def whenGiven_notSupplied)
  have c: "search srv q =
       \<lparr>status = 200,
        body = SearchBody
                 (paginatedResults (filter (satisfiesAll q) (participants srv)) (pageOf q) (limitOf q))
                 (paginationOf (filter (satisfiesAll q) (participants srv)) (pageOf q) (limitOf q))\<rparr>"
    by (simp add: search_def Let_def a)
  show ?thesis
    by (intro conjI) (rule a, rule b, rule c)
qed

theorem filteredParticipants_conjunctive_witness:
  "filter (satisfiesAll exFilterQuery) exStore3
     = [exPerson ''P-001'' ''9876500001'' ''Asha Rao'' ''Welding'' ''F'']
   \<and> filteredParticipants (exQuery None None) exStore3 = exStore3"
proof -
  have h1: "list_all (\<lambda>p. isAscii (p_no p) \<and> isAscii (name p)) (participants (exServer exStore3))"
    by (simp add: isAscii_def exServer_def exStore3_def exPerson_def)
  have h2: "asciiFilter (q_p_no exFilterQuery)" "asciiFilter (q_name exFilterQuery)"
    by (simp_all add: asciiFilter_def isAscii_def exFilterQuery_def)
  have h3: "asciiFilter (q_p_no (exQuery None None))" "asciiFilter (q_name (exQuery None None))"
    by (simp_all add: asciiFilter_def exQuery_def)
  have e: "filteredParticipants exFilterQuery exStore3
             = [exPerson ''P-001'' ''9876500001'' ''Asha Rao'' ''Welding'' ''F'']"
    by (simp add: eval_search_defs)
  have n: "notSupplied (q_p_no (exQuery None None)) \<and> notSupplied (q_mobile_no (exQuery None None))
        \<and> notSupplied (q_name (exQuery None None)) \<and> notSupplied (q_trade (exQuery None None))
        \<and> notSupplied (q_gender (exQuery None None))"
    by (simp add: notSupplied_def exQuery_def)
  from filteredParticipants_conjunctive [OF h1 h2, THEN conjunct1] e
  have a: "filter (satisfiesAll exFilterQuery) exStore3
     = [exPerson ''P-001'' ''9876500001'' ''Asha Rao'' ''Welding'' ''F'']"
    by (simp add: exServer_def)
  from filteredParticipants_conjunctive [OF h1 h3, THEN conjunct2, THEN conjunct1] n
  have b: "filteredParticipants (exQuery None None) exStore3 = exStore3"
    by (simp add: exServer_def)
  from a b show ?thesis by (rule conjI)
qed

lemma ceilDiv_ceiling:
  "1 \<le> b \<Longrightarrow> ceilDiv n b = Finite \<lceil>real n / real_of_int b\<rceil>"
proof -
  assume "1 \<le> b"
  have "\<lceil>real_of_int (int n) / real_of_int b\<rceil> = - (- int n div b)"
    by (rule ceiling_divide_eq_div)
  then show ?thesis
    using \<open>1 \<le> b\<close> by (simp add: ceilDiv_def)
qed

lemma take_drop_nth_upt:
  "e \<le> length xs \<Longrightarrow> take (e - s) (drop s xs) = map (nth xs) [s..<e]"
  by (rule nth_equalityI) auto

lemma slice_window:
  assumes "0 \<le> s" and "0 < b"
  shows "slice fs s (min (s + b) (int (length fs)))
           = map (nth fs) [nat s ..< nat (min (s + b) (int (length fs)))]"
proof (cases "s < int (length fs)")
  case True
  then have "slice fs s (min (s + b) (int (length fs)))
      = take (nat (min (s + b) (int (length fs))) - nat s) (drop (nat s) fs)"
    using assms by (simp add: slice_def Let_def min_def nat_diff_distrib)
  also have "\<dots> = map (nth fs) [nat s ..< nat (min (s + b) (int (length fs)))]"
    by (rule take_drop_nth_upt) simp
  finally show ?thesis .
next
  case False
  then have "slice fs s (min (s + b) (int (length fs))) = []"
    using assms by (simp add: slice_def Let_def min_def)
  moreover from False assms have "nat (min (s + b) (int (length fs))) \<le> nat s"
    by (simp add: min_def nat_le_iff)
  ultimately show ?thesis by simp
qed

lemma paginatedResults_slice:
  assumes "1 \<le> pg" and "1 \<le> b"
  shows "paginatedResults fs pg b =
           map (nth fs) [nat ((pg - 1) * b) ..< nat (min (pg * b) (int (length fs)))]"
proof -
  have s0: "0 \<le> (pg - 1) * b" using assms by simp
  have b0: "0 < b" using assms by simp
  have e: "(pg - 1) * b + b = pg * b" by (simp add: algebra_simps)
  from slice_window [OF s0 b0, of fs] show ?thesis
    unfolding paginatedResults_def Let_def e .
qed

lemma paginatedResults_beyond_empty:
  assumes "1 \<le> b"
    and "pg = 0 \<or> \<lceil>real (length fs) / real_of_int b\<rceil> < pg"
  shows "paginatedResults fs pg b = []"
proof -
  from assms(2) show ?thesis
  proof
    assume "pg = 0"
    then show ?thesis
      using assms(1) by (simp add: paginatedResults_def slice_def Let_def min_def)
  next
    assume c: "\<lceil>real (length fs) / real_of_int b\<rceil> < pg"
    have x0: "0 \<le> real (length fs) / real_of_int b"
      using assms(1) by simp
    have "0 \<le> \<lceil>real (length fs) / real_of_int b\<rceil>"
      using ceiling_mono [OF x0] by simp
    with c have pg: "1 \<le> pg" by linarith
    from c have "real (length fs) / real_of_int b \<le> real_of_int (pg - 1)"
      by (simp add: ceiling_less_iff)
    then have "real (length fs) \<le> real_of_int (pg - 1) * real_of_int b"
      using assms(1) by (simp add: pos_divide_le_eq)
    then have "real_of_int (int (length fs)) \<le> real_of_int ((pg - 1) * b)"
      by simp
    then have le: "int (length fs) \<le> (pg - 1) * b"
      by (simp only: of_int_le_iff)
    have e: "(pg - 1) * b + b = pg * b" by (simp add: algebra_simps)
    have "min (pg * b) (int (length fs)) = int (length fs)"
      using le assms(1) e by (simp add: min_def)
    with le show ?thesis
      unfolding paginatedResults_slice [OF pg assms(1)] by (simp add: nat_le_iff)
  qed
qed

text \<open>
  C6. For a request whose page and limit parameters are integers that are at least 1,
  the search response reports the number of filtered records as total, the requested
  page and limit, the ceiling of total / limit as totalPages (which is 0 when nothing
  matches), hasNext as page < totalPages, hasPrev as page > 1, and returns the
  filtered records at the indices from (page - 1) * limit up to
  min (page * limit) total, in order. With 25 filtered records, limit 10 and page 3
  this is totalPages 3, the five records at indices 20 to 24, hasNext false and
  hasPrev true.
\<close>

theorem search_pagination:
  assumes "q_page q = Some pg" and "q_limit q = Some lm" and "1 \<le> pg" and "1 \<le> lm"
  shows "search srv q =
           \<lparr>status = 200,
            body = SearchBody
              (map (nth (filteredParticipants q (participants srv)))
                 [nat ((pg - 1) * lm)
                  ..< nat (min (pg * lm)
                            (int (length (filteredParticipants q (participants srv)))))])
              \<lparr>total = int (length (filteredParticipants q (participants srv))),
               page = pg,
               totalPages = Finite \<lceil>real (length (filteredParticipants q (participants srv)))
                                     / real_of_int lm\<rceil>,
               limit = lm,
               hasNext = (pg < \<lceil>real (length (filteredParticipants q (participants srv)))
                                       / real_of_int lm\<rceil>),
               hasPrev = (1 < pg)\<rparr>\<rparr>
         \<and> (filteredParticipants q (participants srv) = [] \<longrightarrow>
              search srv q =
                \<lparr>status = 200,
                 body = SearchBody []
                   \<lparr>total = 0, page = pg, totalPages = Finite 0, limit = lm,
                    hasNext = False, hasPrev = (1 < pg)\<rparr>\<rparr>)
         \<and> (length (filteredParticipants q (participants srv)) = 25 \<and> lm = 10 \<and> pg = 3 \<longrightarrow>
              search srv q =
                \<lparr>status = 200,
                 body = SearchBody
                   (map (nth (filteredParticipants q (participants srv))) [20..<25])
                   \<lparr>total = 25, page = 3, totalPages = Finite 3, limit = 10,
                    hasNext = False, hasPrev = True\<rparr>\<rparr>)"
proof -
  let ?fs = "filteredParticipants q (participants srv)"
  have pq: "pageOf q = pg" and lq: "limitOf q = lm"
    using assms(1,2) by (simp_all add: pageOf_def limitOf_def)
  have a: "search srv q =
           \<lparr>status = 200,
            body = SearchBody
              (map (nth ?fs) [nat ((pg - 1) * lm) ..< nat (min (pg * lm) (int (length ?fs)))])
              \<lparr>total = int (length ?fs),
               page = pg,
               totalPages = Finite \<lceil>real (length ?fs) / real_of_int lm\<rceil>,
               limit = lm,
               hasNext = (pg < \<lceil>real (length ?fs) / real_of_int lm\<rceil>),
               hasPrev = (1 < pg)\<rparr>\<rparr>"
    by (simp add: search_def Let_def pq lq paginationOf_def
        paginatedResults_slice [OF assms(3,4)] ceilDiv_ceiling [OF assms(4)])
  have b: "?fs = [] \<longrightarrow>
              search srv q =
                \<lparr>status = 200,
                 body = SearchBody []
                   \<lparr>total = 0, page = pg, totalPages = Finite 0, limit = lm,
                    hasNext = False, hasPrev = (1 < pg)\<rparr>\<rparr>"
  proof
    assume h: "?fs = []"
    show "search srv q =
                \<lparr>status = 200,
                 body = SearchBody []
                   \<lparr>total = 0, page = pg, totalPages = Finite 0, limit = lm,
                    hasNext = False, hasPrev = (1 < pg)\<rparr>\<rparr>"
      unfolding a using h assms(3) by simp
  qed
  have c: "length ?fs = 25 \<and> lm = 10 \<and> pg = 3 \<longrightarrow>
              search srv q =
                \<lparr>status = 200,
                 body = SearchBody (map (nth ?fs) [20..<25])
                   \<lparr>total = 25, page = 3, totalPages = Finite 3, limit = 10,
                    hasNext = False, hasPrev = True\<rparr>\<rparr>"
  proof
    assume h: "length ?fs = 25 \<and> lm = 10 \<and> pg = 3"
    show "search srv q =
                \<lparr>status = 200,
                 body = SearchBody (map (nth ?fs) [20..<25])
                   \<lparr>total = 25, page = 3, totalPages = Finite 3, limit = 10,
                    hasNext = False, hasPrev = True\<rparr>\<rparr>"
      unfolding a using h by simp
  qed
  show ?thesis
    by (intro conjI) (rule a, rule b, rule c)
qed

theorem search_pagination_witness:
  "search (exServer exStore25) (exQuery (Some 3) (Some 10)) =
     \<lparr>status = 200,
      body = SearchBody (map (nth exStore25) [20..<25])
               \<lparr>total = 25, page = 3, totalPages = Finite 3, limit = 10,
                hasNext = False, hasPrev = True\<rparr>\<rparr>
   \<and> search (exServer exStore25) (exQuery (Some 2) (Some 4)) =
     \<lparr>status = 200,
      body = SearchBody (map (nth exStore25) [4..<8])
               \<lparr>total = 25, page = 2, totalPages = Finite 7, limit = 4,
                hasNext = True, hasPrev = True\<rparr>\<rparr>
   \<and> search (exServer []) (exQuery (Some 1) (Some 5)) =
     \<lparr>status = 200,
      body = SearchBody []
               \<lparr>total = 0, page = 1, totalPages = Finite 0, limit = 5,
                hasNext = False, hasPrev = False\<rparr>\<rparr>"
proof -
  have f: "filteredParticipants (exQuery pg lm) (participants (exServer ps)) = ps" for pg lm ps
    by (simp add: filteredParticipants_def whenGiven_def exQuery_def exServer_def)
  have l: "length exStore25 = 25"
    by (simp add: exStore25_def)
  have p3: "q_page (exQuery (Some 3) (Some 10)) = Some 3"
    and l10: "q_limit (exQuery (Some 3) (Some 10)) = Some 10"
    and p2: "q_page (exQuery (Some 2) (Some 4)) = Some 2"
    and l4: "q_limit (exQuery (Some 2) (Some 4)) = Some 4"
    and p1: "q_page (exQuery (Some 1) (Some 5)) = Some 1"
    and l5: "q_limit (exQuery (Some 1) (Some 5)) = Some 5"
    by (simp_all add: exQuery_def)
  have a: "search (exServer exStore25) (exQuery (Some 3) (Some 10)) =
     \<lparr>status = 200,
      body = SearchBody (map (nth exStore25) [20..<25])
               \<lparr>total = 25, page = 3, totalPages = Finite 3, limit = 10,
                hasNext = False, hasPrev = True\<rparr>\<rparr>"
    using search_pagination [OF p3 l10, of "exServer exStore25", THEN conjunct2, THEN conjunct2]
    by (simp add: f l)
  have b: "search (exServer exStore25) (exQuery (Some 2) (Some 4)) =
     \<lparr>status = 200,
      body = SearchBody (map (nth exStore25) [4..<8])
               \<lparr>total = 25, page = 2, totalPages = Finite 7, limit = 4,
                hasNext = True, hasPrev = True\<rparr>\<rparr>"
    using search_pagination [OF p2 l4, of "exServer exStore25", THEN conjunct1]
    by (simp add: f l)
  have c: "search (exServer []) (exQuery (Some 1) (Some 5)) =
     \<lparr>status = 200,
      body = SearchBody []
               \<lparr>total = 0, page = 1, totalPages = Finite 0, limit = 5,
                hasNext = False, hasPrev = False\<rparr>\<rparr>"
    using search_pagination [OF p1 l5, of "exServer []", THEN conjunct2, THEN conjunct1]
    by (simp add: f)
  from a b c show ?thesis by blast
qed

text \<open>
  C7 does not hold of the code for negative pages. Page 0 and pages beyond totalPages
  give an empty slice (lemma \<open>paginatedResults_beyond_empty\<close>), but for a negative page
  both slice bounds are negative and \<open>slice\<close> counts them from the end of the array:
  with two records, page -1 and limit 1 the response carries the first record.
\<close>

theorem search_negative_page_nonempty:
  "search (exServer [exParticipant ''7'' ''70'', exParticipant ''8'' ''80''])
     (exQuery (Some (- 1)) (Some 1))
   = \<lparr>status = 200,
      body = SearchBody [exParticipant ''7'' ''70'']
               \<lparr>total = 2, page = - 1, totalPages = Finite 2, limit = 1,
                hasNext = True, hasPrev = False\<rparr>\<rparr>"
  by (simp add: search_def Let_def paginatedResults_def paginationOf_def slice_def ceilDiv_def
      filteredParticipants_def whenGiven_def exQuery_def exServer_def pageOf_def limitOf_def)

end
